theory Spec2Isabelle
  imports Main
begin

section \<open>Strings and the tables of the Python runtime\<close>

text \<open>
  A Python \<open>str\<close> is a sequence of Unicode code points and \<open>len\<close> counts code points,
  so a string is a list of code points. The pattern of \<open>BLACKLIST_RE\<close> holds the
  bullet U+2022, which is one element of such a list.
\<close>

type_synonym ustr = "nat list"

definition u :: "string \<Rightarrow> ustr" where
  "u s = map of_char s"

text \<open>
  \<open>robotoff/ingredients.py\<close> relies on tables that belong to the Python runtime and
  not to the repository: the classes \<open>\d\<close> and \<open>\s\<close> of module \<open>re\<close> (Unicode aware
  for a \<open>str\<close> pattern) and the case methods of \<open>str\<close>. They are parameters of the
  model, collected in one record, so that every theorem holds whatever the tables are.
\<close>

record pyrt =
  re_digit :: "nat \<Rightarrow> bool"
  re_space :: "nat \<Rightarrow> bool"
  str_lower :: "ustr \<Rightarrow> ustr"
  str_upper :: "ustr \<Rightarrow> ustr"
  str_capitalize :: "ustr \<Rightarrow> ustr"
  str_isupper :: "ustr \<Rightarrow> bool"
  str_istitle :: "ustr \<Rightarrow> bool"

section \<open>The regular expression \<open>BLACKLIST_RE\<close>\<close>

text \<open>
  The constructs that the pattern uses: a character class, concatenation, alternation,
  an optional group \<open>(?:r)?\<close> and a greedy bounded repetition \<open>c{lo,hi}\<close> of a
  character class (\<open>c+\<close> is \<open>c{1,}\<close>, \<open>c*\<close> is \<open>c{0,}\<close>).
\<close>

datatype re =
    Cls "nat \<Rightarrow> bool"
  | Cat re re
  | Alt re re
  | Opt re
  | Rep nat "nat option" "nat \<Rightarrow> bool"

text \<open>
  \<open>re_rest r s\<close> lists what is left of \<open>s\<close> after each way of matching \<open>r\<close> at its
  start, in the order in which the backtracking matcher of \<open>re\<close> tries them: the first
  alternative before the second, the group before its omission, the longest repetition
  first.
\<close>

fun re_rest :: "re \<Rightarrow> ustr \<Rightarrow> ustr list" where
  "re_rest (Cls p) s = (case s of [] \<Rightarrow> [] | c # cs \<Rightarrow> if p c then [cs] else [])"
| "re_rest (Cat a b) s = concat (map (re_rest b) (re_rest a s))"
| "re_rest (Alt a b) s = re_rest a s @ re_rest b s"
| "re_rest (Opt a) s = re_rest a s @ [s]"
| "re_rest (Rep lo hi p) s =
     (let k = length (takeWhile p s);
          k' = (case hi of None \<Rightarrow> k | Some h \<Rightarrow> min h k)
      in map (\<lambda>j. drop j s) (rev [lo..<Suc k']))"

text \<open>\<open>Pattern.match\<close>: the length of the match at the start of \<open>s\<close>.\<close>

definition re_match :: "re \<Rightarrow> ustr \<Rightarrow> nat option" where
  "re_match r s = (case re_rest r s of [] \<Rightarrow> None | t # _ \<Rightarrow> Some (length s - length t))"

text \<open>\<open>Pattern.search\<close>: \<open>(start, end)\<close> of the leftmost match.\<close>

fun re_search :: "re \<Rightarrow> ustr \<Rightarrow> (nat \<times> nat) option" where
  "re_search r [] = (case re_match r [] of None \<Rightarrow> None | Some n \<Rightarrow> Some (0, n))"
| "re_search r (c # cs) =
     (case re_match r (c # cs) of
        Some n \<Rightarrow> Some (0, n)
      | None \<Rightarrow> (case re_search r cs of None \<Rightarrow> None | Some (a, b) \<Rightarrow> Some (Suc a, Suc b)))"

text \<open>
  \<^verbatim>\<open>(?:\d+(?:[,.]\d+)?\s*%)|(?:E ?\d{3,5}[a-z]*)|(?:[_<U+2022>:0-9])\<close>
\<close>

definition percent_re :: "pyrt \<Rightarrow> re" where
  "percent_re R =
     Cat (Rep 1 None (re_digit R))
       (Cat (Opt (Cat (Cls (\<lambda>c. c = 44 \<or> c = 46)) (Rep 1 None (re_digit R))))
         (Cat (Rep 0 None (re_space R)) (Cls (\<lambda>c. c = 37))))"

definition additive_re :: "pyrt \<Rightarrow> re" where
  "additive_re R =
     Cat (Cls (\<lambda>c. c = 69))
       (Cat (Opt (Cls (\<lambda>c. c = 32)))
         (Cat (Rep 3 (Some 5) (re_digit R)) (Rep 0 None (\<lambda>c. 97 \<le> c \<and> c \<le> 122))))"

definition lone_re :: re where
  "lone_re = Cls (\<lambda>c. c = 95 \<or> c = 8226 \<or> c = 58 \<or> (48 \<le> c \<and> c \<le> 57))"

definition BLACKLIST_RE :: "pyrt \<Rightarrow> re" where
  "BLACKLIST_RE R = Alt (percent_re R) (Alt (additive_re R) lone_re)"

section \<open>The Normalizer\<close>

text \<open>One pass of the \<open>while True\<close> loop that finds a match: the span becomes spaces.\<close>

definition mask_span :: "ustr \<Rightarrow> nat \<Rightarrow> nat \<Rightarrow> ustr" where
  "mask_span normalized start end = take start normalized @ replicate (end - start) 32 @ drop end normalized"

lemma re_rest_suffix: "t \<in> set (re_rest r s) \<Longrightarrow> \<exists>p. s = p @ t"
proof (induction r arbitrary: s t)
  case (Cls p)
  then show ?case by (auto split: list.splits if_splits)
next
  case (Cat a b)
  then obtain m where m: "m \<in> set (re_rest a s)" and t: "t \<in> set (re_rest b m)"
    by auto
  from Cat.IH(1)[OF m] obtain p where "s = p @ m" by blast
  moreover from Cat.IH(2)[OF t] obtain q where "m = q @ t" by blast
  ultimately have "s = (p @ q) @ t" by simp
  then show ?case by blast
next
  case (Alt a b)
  then show ?case by auto
next
  case (Opt a)
  then show ?case by auto
next
  case (Rep lo hi p)
  then obtain j where "t = drop j s" by (auto simp: Let_def)
  then have "s = take j s @ t" by simp
  then show ?case by blast
qed

lemma re_rest_Cat_iff:
  "t \<in> set (re_rest (Cat a b) s) \<longleftrightarrow> (\<exists>m \<in> set (re_rest a s). t \<in> set (re_rest b m))"
  by auto

lemma re_rest_Cls_iff: "t \<in> set (re_rest (Cls p) s) \<longleftrightarrow> (\<exists>c. s = c # t \<and> p c)"
  by (auto split: list.splits)

text \<open>Every match of the pattern holds a character that is not a space.\<close>

lemma percent_consumes:
  assumes "t \<in> set (re_rest (percent_re R) s)"
  shows "\<exists>p. s = p @ t \<and> 37 \<in> set p"
proof -
  from assms obtain m1 m2 m3 where
    m1: "m1 \<in> set (re_rest (Rep 1 None (re_digit R)) s)" and
    m2: "m2 \<in> set (re_rest (Opt (Cat (Cls (\<lambda>c. c = 44 \<or> c = 46)) (Rep 1 None (re_digit R)))) m1)" and
    m3: "m3 \<in> set (re_rest (Rep 0 None (re_space R)) m2)" and
    t: "t \<in> set (re_rest (Cls (\<lambda>c. c = 37)) m3)"
    unfolding percent_re_def re_rest_Cat_iff by blast
  from re_rest_suffix[OF m1] obtain p1 where "s = p1 @ m1" by blast
  moreover from re_rest_suffix[OF m2] obtain p2 where "m1 = p2 @ m2" by blast
  moreover from re_rest_suffix[OF m3] obtain p3 where "m2 = p3 @ m3" by blast
  moreover from t have "m3 = 37 # t" by (simp add: re_rest_Cls_iff)
  ultimately have "s = (p1 @ p2 @ p3 @ [37]) @ t" by simp
  moreover have "37 \<in> set (p1 @ p2 @ p3 @ [37])" by simp
  ultimately show ?thesis by blast
qed

lemma additive_consumes:
  assumes "t \<in> set (re_rest (additive_re R) s)"
  shows "\<exists>p. s = p @ t \<and> 69 \<in> set p"
proof -
  from assms obtain m where
    m: "m \<in> set (re_rest (Cls (\<lambda>c. c = 69)) s)" and
    t: "t \<in> set (re_rest (Cat (Opt (Cls (\<lambda>c. c = 32)))
           (Cat (Rep 3 (Some 5) (re_digit R)) (Rep 0 None (\<lambda>c. 97 \<le> c \<and> c \<le> 122)))) m)"
    unfolding additive_re_def re_rest_Cat_iff by blast
  from m have "s = 69 # m" by (simp add: re_rest_Cls_iff)
  moreover from re_rest_suffix[OF t] obtain q where "m = q @ t" by blast
  ultimately have "s = (69 # q) @ t" by simp
  moreover have "69 \<in> set (69 # q)" by simp
  ultimately show ?thesis by blast
qed

lemma lone_consumes:
  assumes "t \<in> set (re_rest lone_re s)"
  shows "\<exists>c. s = c # t \<and> c \<noteq> 32"
proof -
  from assms obtain c where c: "s = c # t"
    and cls: "c = 95 \<or> c = 8226 \<or> c = 58 \<or> (48 \<le> c \<and> c \<le> 57)"
    unfolding lone_re_def re_rest_Cls_iff by blast
  from cls have "c \<noteq> 32" by linarith
  with c show ?thesis by blast
qed

lemma blacklist_consumes:
  assumes "t \<in> set (re_rest (BLACKLIST_RE R) s)"
  shows "\<exists>p. s = p @ t \<and> (\<exists>c \<in> set p. c \<noteq> 32)"
proof -
  from assms consider
      "t \<in> set (re_rest (percent_re R) s)"
    | "t \<in> set (re_rest (additive_re R) s)"
    | "t \<in> set (re_rest lone_re s)"
    by (auto simp: BLACKLIST_RE_def)
  then show ?thesis
  proof cases
    case 1
    from percent_consumes[OF 1] obtain p where "s = p @ t" "37 \<in> set p" by blast
    moreover have "(37::nat) \<noteq> 32" by simp
    ultimately show ?thesis by blast
  next
    case 2
    from additive_consumes[OF 2] obtain p where "s = p @ t" "69 \<in> set p" by blast
    moreover have "(69::nat) \<noteq> 32" by simp
    ultimately show ?thesis by blast
  next
    case 3
    from lone_consumes[OF 3] obtain c where "s = c # t" "c \<noteq> 32" by blast
    then have "s = [c] @ t" "\<exists>d \<in> set [c]. d \<noteq> 32" by simp_all
    then show ?thesis by blast
  qed
qed

lemma re_match_blacklist:
  assumes "re_match (BLACKLIST_RE R) s = Some n"
  shows "n \<le> length s \<and> (\<exists>c \<in> set (take n s). c \<noteq> 32)"
proof -
  from assms obtain t ts where ts: "re_rest (BLACKLIST_RE R) s = t # ts"
    and n: "n = length s - length t"
    by (auto simp: re_match_def split: list.splits)
  from ts have "t \<in> set (re_rest (BLACKLIST_RE R) s)" by simp
  from blacklist_consumes[OF this] obtain p where p: "s = p @ t" "\<exists>c \<in> set p. c \<noteq> 32"
    by blast
  with n have "n = length p" "take n s = p" by simp_all
  with p show ?thesis by simp
qed

lemma re_search_blacklist:
  "re_search (BLACKLIST_RE R) s = Some (a, b) \<Longrightarrow>
     a \<le> b \<and> b \<le> length s \<and> (\<exists>c \<in> set (take (b - a) (drop a s)). c \<noteq> 32)"
proof (induction s arbitrary: a b)
  case Nil
  then show ?case
    using re_match_blacklist[of R "[]"] by (auto split: option.splits)
next
  case (Cons x xs)
  show ?case
  proof (cases "re_match (BLACKLIST_RE R) (x # xs)")
    case (Some n)
    with Cons.prems have "a = 0" "b = n" by simp_all
    with re_match_blacklist[OF Some] show ?thesis by simp
  next
    case None
    with Cons.prems obtain a' b' where
      "re_search (BLACKLIST_RE R) xs = Some (a', b')" "a = Suc a'" "b = Suc b'"
      by (auto split: option.splits)
    with Cons.IH[of a' b'] show ?thesis by simp
  qed
qed

text \<open>The number of characters of a string that are not spaces.\<close>

definition nonspace :: "ustr \<Rightarrow> nat" where
  "nonspace s = length (filter (\<lambda>c. c \<noteq> 32) s)"

lemma nonspace_append: "nonspace (xs @ ys) = nonspace xs + nonspace ys"
  by (simp add: nonspace_def)

lemma span_split:
  assumes "a \<le> b"
  shows "s = take a s @ take (b - a) (drop a s) @ drop b s"
proof -
  have "drop b s = drop (b - a) (drop a s)"
    using assms by simp
  then have "take (b - a) (drop a s) @ drop b s = drop a s"
    by (simp only: append_take_drop_id)
  then show ?thesis
    by (simp only: append_take_drop_id)
qed

lemma nonspace_mask:
  assumes "a \<le> b" "b \<le> length s" "\<exists>c \<in> set (take (b - a) (drop a s)). c \<noteq> 32"
  shows "nonspace (mask_span s a b) < nonspace s"
proof -
  have "0 < nonspace (take (b - a) (drop a s))"
    using assms(3) by (auto simp: nonspace_def filter_empty_conv)
  moreover have "nonspace s = nonspace (take a s @ take (b - a) (drop a s) @ drop b s)"
    by (rule arg_cong[where f = nonspace, OF span_split[OF assms(1)]])
  moreover have "nonspace (mask_span s a b) = nonspace (take a s) + nonspace (drop b s)"
    by (simp add: nonspace_def mask_span_def)
  ultimately show ?thesis
    by (simp only: nonspace_append)
qed

text \<open>
  \<open>normalize_ingredients\<close>: the argument is the loop variable \<open>normalized\<close>, which
  starts as \<open>ingredient_text\<close>. \<open>next(BLACKLIST_RE.finditer(normalized))\<close> is the
  leftmost match and \<open>StopIteration\<close> the absence of one. A match object is always
  true, so the \<open>else: break\<close> of \<open>if match\<close> is never taken.
\<close>

function normalize_ingredients :: "pyrt \<Rightarrow> ustr \<Rightarrow> ustr" where
  "normalize_ingredients R normalized =
     (case re_search (BLACKLIST_RE R) normalized of
        None \<Rightarrow> normalized
      | Some (start, end) \<Rightarrow> normalize_ingredients R (mask_span normalized start end))"
  by pat_completeness auto
termination
proof (relation "measure (\<lambda>(R, s). nonspace s)")
  show "wf (measure (\<lambda>(R, s). nonspace s))" by simp
next
  fix R :: pyrt and normalized :: ustr and x2 :: "nat \<times> nat" and start "end" :: nat
  assume "re_search (BLACKLIST_RE R) normalized = Some x2" "(start, end) = x2"
  then have "re_search (BLACKLIST_RE R) normalized = Some (start, end)" by simp
  from re_search_blacklist[OF this] have "nonspace (mask_span normalized start end) < nonspace normalized"
    by (intro nonspace_mask) simp_all
  then show "((R, mask_span normalized start end), (R, normalized)) \<in> measure (\<lambda>(R, s). nonspace s)"
    by simp
qed

declare normalize_ingredients.simps [simp del]

text \<open>
  The same loop with a bound on the number of passes: \<open>None\<close> when the bound is
  reached before the loop breaks.
\<close>

fun normalize_bounded :: "nat \<Rightarrow> pyrt \<Rightarrow> ustr \<Rightarrow> ustr option" where
  "normalize_bounded 0 R normalized = None"
| "normalize_bounded (Suc n) R normalized =
     (case re_search (BLACKLIST_RE R) normalized of
        None \<Rightarrow> Some normalized
      | Some (start, end) \<Rightarrow> normalize_bounded n R (mask_span normalized start end))"

text \<open>
  \<open>Pattern.finditer\<close>: the spans of the successive matches, each search starting where
  the last match ended. No match of \<open>BLACKLIST_RE\<close> is empty; for a pattern that matches
  the empty string at position 0 the list is cut after that match.
\<close>

lemma re_search_Nil: "re_search r [] = Some (a, b) \<Longrightarrow> b = 0"
  by (auto simp: re_match_def split: option.splits list.splits)

function finditer :: "re \<Rightarrow> ustr \<Rightarrow> (nat \<times> nat) list" where
  "finditer r s =
     (case re_search r s of
        None \<Rightarrow> []
      | Some (a, b) \<Rightarrow>
          if b = 0 then [(a, b)]
          else (a, b) # map (\<lambda>(x, y). (x + b, y + b)) (finditer r (drop b s)))"
  by pat_completeness auto
termination
proof (relation "measure (\<lambda>(r, s). length s)")
  show "wf (measure (\<lambda>(r, s). length s))" by simp
next
  fix r :: re and s :: ustr and x2 :: "nat \<times> nat" and a b :: nat
  assume h: "re_search r s = Some x2" "(a, b) = x2" "b \<noteq> 0"
  then have "re_search r s = Some (a, b)" by simp
  with h(3) have "s \<noteq> []" using re_search_Nil by blast
  with h(3) show "((r, drop b s), (r, s)) \<in> measure (\<lambda>(r, s). length s)" by simp
qed

declare finditer.simps [simp del]

section \<open>The Segmenter\<close>

definition SPLITTER_CHAR :: "nat set" where
  "SPLITTER_CHAR = {40, 41, 44, 59, 91, 93, 45, 123, 125}"

text \<open>
  The dataclass \<open>Ingredients\<close>. Its fields carry the prefix \<open>i_\<close>: \<open>text\<close> is a keyword
  of Isabelle, and \<open>normalized\<close> and \<open>offsets\<close> name local variables of the source.
\<close>

record Ingredients =
  i_text :: ustr
  i_normalized :: ustr
  i_offsets :: "(int \<times> int) list"

text \<open>
  The \<open>for idx, char in enumerate(normalized)\<close> loop of \<open>process_ingredients\<close>; the state
  is \<open>(offsets, chars, start_idx)\<close>.
\<close>

fun segment_loop :: "ustr \<Rightarrow> int \<Rightarrow> (int \<times> int) list \<times> ustr \<times> int \<Rightarrow> (int \<times> int) list \<times> ustr \<times> int" where
  "segment_loop [] idx st = st"
| "segment_loop (char # rest) idx (offsets, chars, start_idx) =
     (if char \<in> SPLITTER_CHAR
      then segment_loop rest (idx + 1) (offsets @ [(start_idx, idx)], chars @ [32], idx + 1)
      else segment_loop rest (idx + 1) (offsets, chars @ [char], start_idx))"

definition process_ingredients :: "pyrt \<Rightarrow> ustr \<Rightarrow> Ingredients" where
  "process_ingredients R ingredient_text =
     (let normalized = normalize_ingredients R ingredient_text;
          (offsets, chars, start_idx) = segment_loop normalized 0 ([], [], 0);
          offsets = (if start_idx \<noteq> int (length normalized)
                     then offsets @ [(start_idx, int (length normalized))] else offsets)
      in \<lparr>i_text = ingredient_text, i_normalized = chars, i_offsets = offsets\<rparr>)"

section \<open>Slices, indexing and errors\<close>

datatype py_error = KeyError | IndexError | TokenLengthMismatchException

text \<open>A bound of a slice: a negative bound counts from the end, and bounds are clipped.\<close>

definition slice_bound :: "int \<Rightarrow> int \<Rightarrow> int" where
  "slice_bound n i = (if i < 0 then max 0 (n + i) else min i n)"

text \<open>\<open>s[lo:hi]\<close>, where \<open>None\<close> is an omitted bound.\<close>

definition py_slice :: "'a list \<Rightarrow> int option \<Rightarrow> int option \<Rightarrow> 'a list" where
  "py_slice s lo hi =
     (let n = int (length s);
          a = (case lo of None \<Rightarrow> 0 | Some i \<Rightarrow> slice_bound n i);
          b = (case hi of None \<Rightarrow> n | Some j \<Rightarrow> slice_bound n j)
      in take (nat (b - a)) (drop (nat a) s))"

text \<open>\<open>xs[idx]\<close> for an index that \<open>enumerate\<close> produced.\<close>

definition py_getitem :: "'a list \<Rightarrow> nat \<Rightarrow> py_error + 'a" where
  "py_getitem xs idx = (if idx < length xs then Inr (xs ! idx) else Inl IndexError)"

definition iter_normalized_ingredients :: "Ingredients \<Rightarrow> ustr list" where
  "iter_normalized_ingredients self =
     map (\<lambda>(start, end). py_slice (i_normalized self) (Some start) (Some end)) (i_offsets self)"

definition get_normalized_ingredient :: "Ingredients \<Rightarrow> nat \<Rightarrow> py_error + ustr" where
  "get_normalized_ingredient self index =
     (case py_getitem (i_offsets self) index of
        Inl e \<Rightarrow> Inl e
      | Inr (start, end) \<Rightarrow> Inr (py_slice (i_normalized self) (Some start) (Some end)))"

section \<open>The Reconciler\<close>

record TermCorrection =
  original :: ustr
  correction :: ustr
  start_offset :: int
  end_offset :: int

record Correction =
  term_corrections :: "TermCorrection list"
  score :: int

text \<open>A token of the analyzer: the keys \<open>token\<close>, \<open>start_offset\<close> and \<open>end_offset\<close>.\<close>

record es_token =
  token :: ustr
  token_start_offset :: int
  token_end_offset :: int

text \<open>The \<open>for ... in zip(original_tokens, suggestion_tokens)\<close> loop; the state is \<open>corrections\<close>.\<close>

fun format_loop :: "pyrt \<Rightarrow> (es_token \<times> es_token) list \<Rightarrow> int \<Rightarrow> TermCorrection list \<Rightarrow> TermCorrection list" where
  "format_loop R [] offset corrections = corrections"
| "format_loop R ((original_token, suggestion_token) # rest) offset corrections =
     (let original_token_str = token original_token;
          suggestion_token_str = token suggestion_token
      in if str_lower R original_token_str \<noteq> suggestion_token_str
         then
           (let token_str =
                  (if str_isupper R original_token_str then str_upper R suggestion_token_str
                   else if str_istitle R original_token_str then str_capitalize R suggestion_token_str
                   else suggestion_token_str);
                token_start = token_start_offset original_token;
                token_end = token_end_offset original_token
            in format_loop R rest offset
                 (corrections @ [\<lparr>original = original_token_str, correction = token_str,
                                  start_offset = offset + token_start,
                                  end_offset = offset + token_end\<rparr>]))
         else format_loop R rest offset corrections)"

definition format_corrections :: "pyrt \<Rightarrow> es_token list \<Rightarrow> es_token list \<Rightarrow> int \<Rightarrow> py_error + TermCorrection list" where
  "format_corrections R original_tokens suggestion_tokens offset =
     (if length original_tokens \<noteq> length suggestion_tokens
      then Inl TokenLengthMismatchException
      else Inr (format_loop R (zip original_tokens suggestion_tokens) offset []))"

section \<open>The Text Rebuilder\<close>

text \<open>
  The loop of \<open>generate_corrected_text\<close>; the state is
  \<open>(corrected_fragments, last_correction)\<close>.
\<close>

fun rebuild_loop :: "TermCorrection list \<Rightarrow> ustr \<Rightarrow> ustr list \<times> TermCorrection option \<Rightarrow> ustr list \<times> TermCorrection option" where
  "rebuild_loop [] text st = st"
| "rebuild_loop (corr # rest) text (corrected_fragments, last_correction) =
     (let corrected_fragments =
            (case last_correction of
               None \<Rightarrow> corrected_fragments @ [py_slice text None (Some (start_offset corr))]
             | Some l \<Rightarrow> corrected_fragments @ [py_slice text (Some (end_offset l)) (Some (start_offset corr))])
      in rebuild_loop rest text (corrected_fragments @ [correction corr], Some corr))"

text \<open>\<open>sorted\<close> is stable, as \<open>sort_key\<close> is; \<open>''.join\<close> is \<open>concat\<close>.\<close>

definition generate_corrected_text :: "TermCorrection list \<Rightarrow> ustr \<Rightarrow> ustr" where
  "generate_corrected_text corrections text =
     (let sorted_corrections = sort_key start_offset corrections;
          (corrected_fragments, last_correction) = rebuild_loop sorted_corrections text ([], None);
          corrected_fragments =
            (case last_correction of
               None \<Rightarrow> corrected_fragments
             | Some l \<Rightarrow> corrected_fragments @ [py_slice text (Some (end_offset l)) None])
      in concat corrected_fragments)"

section \<open>The suggestion backend and the orchestration\<close>

text \<open>
  The Elasticsearch client is outside the repository. What \<open>ingredients.py\<close> reads of
  its answers is modelled as data: a key that a dictionary may lack is an \<open>option\<close>.
  \<open>client.msearch\<close> is a function of the slot texts (the queries are built from them and
  from the keyword arguments, which are fixed for one client), \<open>client.indices.analyze\<close>
  a function of the text.
\<close>

record es_option =
  option_text :: ustr
  option_score :: int

record suggestion =
  options :: "es_option list"

record root_cause =
  cause_type :: ustr
  cause_reason :: ustr

text \<open>One element \<open>r\<close> of \<open>response['responses']\<close>: \<open>r['status']\<close> and \<open>r['suggest']['autocorrect']\<close>.\<close>

record msearch_item =
  status :: int
  suggest :: "suggestion list option"

text \<open>The whole answer: \<open>response['responses']\<close> and \<open>response['error']['root_cause']\<close>.\<close>

record msearch_response =
  responses :: "msearch_item list"
  error_root_cause :: "root_cause list option"

record es_client =
  msearch :: "ustr list \<Rightarrow> msearch_response"
  indices_analyze :: "ustr \<Rightarrow> es_token list"

text \<open>What the run writes: a line of \<open>print\<close> or a warning of the logger.\<close>

datatype log_entry =
    Printed ustr ustr
  | Warning "es_token list" "es_token list"

definition analyze :: "es_client \<Rightarrow> ustr \<Rightarrow> es_token list" where
  "analyze client ingredient_text = indices_analyze client ingredient_text"

text \<open>
  The \<open>for r in response['responses']\<close> loop of \<open>_suggest_batch\<close>; the state is
  \<open>suggestions\<close> and the lines printed. On a status other than 200 the source reads
  \<open>response['error']\<close>, of the whole answer, and goes on without adding to \<open>suggestions\<close>.
\<close>

fun suggest_batch_loop :: "msearch_response \<Rightarrow> msearch_item list \<Rightarrow> suggestion list \<times> log_entry list \<Rightarrow> py_error + suggestion list \<times> log_entry list" where
  "suggest_batch_loop response [] st = Inr st"
| "suggest_batch_loop response (r # rest) (suggestions, printed) =
     (if status r \<noteq> 200
      then (case error_root_cause response of
              None \<Rightarrow> Inl KeyError
            | Some [] \<Rightarrow> Inl IndexError
            | Some (root_cause # _) \<Rightarrow>
                suggest_batch_loop response rest
                  (suggestions, printed @ [Printed (cause_reason root_cause) (cause_type root_cause)]))
      else (case suggest r of
              None \<Rightarrow> Inl KeyError
            | Some [] \<Rightarrow> Inl IndexError
            | Some (sg # _) \<Rightarrow> suggest_batch_loop response rest (suggestions @ [sg], printed)))"

definition suggest_batch :: "es_client \<Rightarrow> ustr list \<Rightarrow> py_error + suggestion list \<times> log_entry list" where
  "suggest_batch client texts =
     (let response = msearch client texts
      in suggest_batch_loop response (responses response) ([], []))"

text \<open>
  One pass of the \<open>for idx, suggestions in enumerate(...)\<close> loop of
  \<open>generate_corrections\<close>; the state is \<open>corrections\<close> and the log. Only
  \<open>TokenLengthMismatchException\<close> is caught.
\<close>

definition correct_slot :: "pyrt \<Rightarrow> es_client \<Rightarrow> Ingredients \<Rightarrow> nat \<times> suggestion \<Rightarrow> Correction list \<times> log_entry list \<Rightarrow> py_error + Correction list \<times> log_entry list" where
  "correct_slot R client ingredients p st =
     (case (p, st) of ((idx, suggestions), (corrections, logged)) \<Rightarrow>
        (case py_getitem (i_offsets ingredients) idx of
           Inl e \<Rightarrow> Inl e
         | Inr offs \<Rightarrow>
             (case get_normalized_ingredient ingredients idx of
                Inl e \<Rightarrow> Inl e
              | Inr normalized_ingredient \<Rightarrow>
                  (case options suggestions of
                     [] \<Rightarrow> Inr (corrections, logged)
                   | opt # _ \<Rightarrow>
                       (let original_tokens = analyze client normalized_ingredient;
                            suggestion_tokens = analyze client (option_text opt)
                        in case format_corrections R original_tokens suggestion_tokens (fst offs) of
                             Inr tcs \<Rightarrow>
                               Inr (corrections @ [\<lparr>term_corrections = tcs, score = option_score opt\<rparr>], logged)
                           | Inl e \<Rightarrow>
                               if e = TokenLengthMismatchException
                               then Inr (corrections, logged @ [Warning original_tokens suggestion_tokens])
                               else Inl e)))))"

fun corrections_loop :: "pyrt \<Rightarrow> es_client \<Rightarrow> Ingredients \<Rightarrow> (nat \<times> suggestion) list \<Rightarrow> Correction list \<times> log_entry list \<Rightarrow> py_error + Correction list \<times> log_entry list" where
  "corrections_loop R client ingredients [] st = Inr st"
| "corrections_loop R client ingredients (p # rest) st =
     (case correct_slot R client ingredients p st of
        Inl e \<Rightarrow> Inl e
      | Inr st' \<Rightarrow> corrections_loop R client ingredients rest st')"

definition generate_corrections :: "pyrt \<Rightarrow> es_client \<Rightarrow> ustr \<Rightarrow> py_error + Correction list \<times> log_entry list" where
  "generate_corrections R client ingredients_text =
     (let ingredients = process_ingredients R ingredients_text;
          normalized_ingredients = iter_normalized_ingredients ingredients
      in case suggest_batch client normalized_ingredients of
           Inl e \<Rightarrow> Inl e
         | Inr (suggestions, printed) \<Rightarrow>
             corrections_loop R client ingredients (enumerate 0 suggestions) ([], printed))"

section \<open>The runtime tables on ASCII\<close>

text \<open>
  The tables of Python restricted to the code points below 128, where \<open>\d\<close> is
  \<open>[0-9]\<close>, \<open>\s\<close> is \<open>[\t\n\v\f\r\x1c-\x1f ]\<close> and the cased characters are the
  letters. They give the concrete inputs on which the theorems are run.
\<close>

definition ascii_lower :: "ustr \<Rightarrow> ustr" where
  "ascii_lower s = map (\<lambda>c. if 65 \<le> c \<and> c \<le> 90 then c + 32 else c) s"

definition ascii_upper :: "ustr \<Rightarrow> ustr" where
  "ascii_upper s = map (\<lambda>c. if 97 \<le> c \<and> c \<le> 122 then c - 32 else c) s"

definition ascii_capitalize :: "ustr \<Rightarrow> ustr" where
  "ascii_capitalize s = (case s of [] \<Rightarrow> [] | c # cs \<Rightarrow> ascii_upper [c] @ ascii_lower cs)"

definition ascii_isupper :: "ustr \<Rightarrow> bool" where
  "ascii_isupper s =
     (list_ex (\<lambda>c. 65 \<le> c \<and> c \<le> 90) s \<and> \<not> list_ex (\<lambda>c. 97 \<le> c \<and> c \<le> 122) s)"

fun ascii_istitle_loop :: "ustr \<Rightarrow> bool \<Rightarrow> bool \<Rightarrow> bool" where
  "ascii_istitle_loop [] previous_is_cased cased = cased"
| "ascii_istitle_loop (c # cs) previous_is_cased cased =
     (if 65 \<le> c \<and> c \<le> 90
      then (if previous_is_cased then False else ascii_istitle_loop cs True True)
      else if 97 \<le> c \<and> c \<le> 122
      then (if previous_is_cased then ascii_istitle_loop cs True True else False)
      else ascii_istitle_loop cs False cased)"

definition ascii_rt :: pyrt where
  "ascii_rt =
     \<lparr>re_digit = (\<lambda>c. 48 \<le> c \<and> c \<le> 57),
      re_space = (\<lambda>c. (9 \<le> c \<and> c \<le> 13) \<or> (28 \<le> c \<and> c \<le> 32)),
      str_lower = ascii_lower,
      str_upper = ascii_upper,
      str_capitalize = ascii_capitalize,
      str_isupper = ascii_isupper,
      str_istitle = (\<lambda>s. ascii_istitle_loop s False False)\<rparr>"

section \<open>Properties of the Normalizer\<close>

lemma mask_length: "a \<le> b \<Longrightarrow> b \<le> length s \<Longrightarrow> length (mask_span s a b) = length s"
  by (simp add: mask_span_def)

lemma re_search_mask_length:
  "re_search (BLACKLIST_RE R) s = Some (a, b) \<Longrightarrow> length (mask_span s a b) = length s"
  using re_search_blacklist[of R s a b] by (simp add: mask_length)

lemma re_search_mask_nonspace:
  "re_search (BLACKLIST_RE R) s = Some (a, b) \<Longrightarrow> nonspace (mask_span s a b) < nonspace s"
  using re_search_blacklist[of R s a b] by (intro nonspace_mask) simp_all

lemma normalize_length: "length (normalize_ingredients R t) = length t"
proof (induction R t rule: normalize_ingredients.induct)
  case (1 R normalized)
  show ?case
  proof (cases "re_search (BLACKLIST_RE R) normalized")
    case None
    then show ?thesis by (subst normalize_ingredients.simps) simp
  next
    case (Some m)
    obtain a b where m: "m = (a, b)" by (cases m)
    have "length (normalize_ingredients R (mask_span normalized a b)) = length (mask_span normalized a b)"
      by (rule "1.IH"[OF Some]) (simp add: m)
    also have "\<dots> = length normalized"
      using Some m by (simp add: re_search_mask_length)
    finally show ?thesis
      using Some m by (subst normalize_ingredients.simps) simp
  qed
qed

lemma normalize_no_match: "re_search (BLACKLIST_RE R) (normalize_ingredients R t) = None"
proof (induction R t rule: normalize_ingredients.induct)
  case (1 R normalized)
  show ?case
  proof (cases "re_search (BLACKLIST_RE R) normalized")
    case None
    then show ?thesis by (subst normalize_ingredients.simps) simp
  next
    case (Some m)
    obtain a b where m: "m = (a, b)" by (cases m)
    have "re_search (BLACKLIST_RE R) (normalize_ingredients R (mask_span normalized a b)) = None"
      by (rule "1.IH"[OF Some]) (simp add: m)
    then show ?thesis
      using Some m by (subst normalize_ingredients.simps) simp
  qed
qed

lemma normalize_bounded_enough:
  "nonspace t < n \<Longrightarrow> normalize_bounded n R t = Some (normalize_ingredients R t)"
proof (induction n arbitrary: t)
  case 0
  then show ?case by simp
next
  case (Suc n)
  show ?case
  proof (cases "re_search (BLACKLIST_RE R) t")
    case None
    then show ?thesis by (subst normalize_ingredients.simps) simp
  next
    case (Some m)
    obtain a b where m: "m = (a, b)" by (cases m)
    from Some m have "nonspace (mask_span t a b) < nonspace t"
      by (simp add: re_search_mask_nonspace)
    with Suc.prems have "nonspace (mask_span t a b) < n" by simp
    from Suc.IH[OF this] show ?thesis
      using Some m by (subst normalize_ingredients.simps) simp
  qed
qed

lemma spaces_no_match: "re_search (BLACKLIST_RE R) (replicate n 32) = None"
proof (cases "re_search (BLACKLIST_RE R) (replicate n 32)")
  case None
  then show ?thesis .
next
  case (Some m)
  obtain a b where m: "m = (a, b)" by (cases m)
  from re_search_blacklist[of R "replicate n 32" a b] Some m
  obtain c :: nat where c: "c \<in> set (take (b - a) (drop a (replicate n 32)))" "c \<noteq> 32"
    by auto
  from c(1) have "c \<in> set (replicate n (32::nat))"
    by (meson in_set_dropD in_set_takeD)
  with c(2) show ?thesis by simp
qed

text \<open>
  C5. The Normalizer and the Segmenter keep the length: for every string \<open>t\<close>,
  \<open>len(normalize_ingredients(t)) == len(t)\<close>, and the blanked normalized string of
  \<open>process_ingredients(t)\<close> has the length of \<open>t\<close> too.
\<close>

lemma segment_loop_chars:
  "segment_loop s idx (offsets, chars, start_idx) = (offsets', chars', start_idx') \<Longrightarrow>
     length chars' = length chars + length s"
  by (induction s arbitrary: idx offsets chars start_idx) (auto split: if_splits)

theorem length_invariance:
  "length (normalize_ingredients R t) = length t \<and>
   length (i_normalized (process_ingredients R t)) = length t"
proof -
  obtain offsets chars start_idx where
    loop: "segment_loop (normalize_ingredients R t) 0 ([], [], 0) = (offsets, chars, start_idx)"
    by (cases "segment_loop (normalize_ingredients R t) 0 ([], [], 0)")
  from segment_loop_chars[OF loop] have "length chars = length t"
    by (simp add: normalize_length)
  moreover have "i_normalized (process_ingredients R t) = chars"
    by (simp add: process_ingredients_def Let_def loop)
  ultimately show ?thesis by (simp add: normalize_length)
qed

theorem length_invariance_witness:
  "length (normalize_ingredients ascii_rt (u ''sel 5%'')) = 6 \<and>
   length (i_normalized (process_ingredients ascii_rt (u ''sel 5%''))) = 6"
  using length_invariance[of ascii_rt "u ''sel 5%''"] by (simp add: u_def)

text \<open>
  C10. \<open>normalize_ingredients\<close> is idempotent: the loop breaks only on a string that
  holds no match of the pattern, and on such a string it breaks at once.
\<close>

theorem normalize_idempotent:
  "re_search (BLACKLIST_RE R) (normalize_ingredients R t) = None \<and>
   normalize_ingredients R (normalize_ingredients R t) = normalize_ingredients R t"
proof -
  have none: "re_search (BLACKLIST_RE R) (normalize_ingredients R t) = None"
    by (rule normalize_no_match)
  then have "normalize_ingredients R (normalize_ingredients R t) = normalize_ingredients R t"
    by (subst normalize_ingredients.simps) simp
  with none show ?thesis by simp
qed

text \<open>Runs of the matcher on \<open>E_123,5%\<close> and on what one pass of the loop makes of it.\<close>

lemma search_before: "re_search (BLACKLIST_RE ascii_rt) (u ''E_123,5%'') = Some (1, 2)"
  by code_simp

lemma mask_before: "mask_span (u ''E_123,5%'') 1 2 = u ''E 123,5%''"
  by code_simp

lemma search_after: "re_search (BLACKLIST_RE ascii_rt) (u ''E 123,5%'') = Some (0, 5)"
  by code_simp

lemma finditer_before: "finditer (BLACKLIST_RE ascii_rt) (u ''E_123,5%'') = [(1, 2), (2, 8)]"
  by code_simp

lemma finditer_after: "finditer (BLACKLIST_RE ascii_rt) (u ''E 123,5%'') = [(0, 5), (6, 8)]"
  by code_simp

text \<open>
  C9, as stated, fails. On \<open>E_123,5%\<close> the first pass blanks the underscore at
  \<open>[1, 2)\<close>. The space written there is then part of the next match, \<open>E 123\<close> at
  \<open>[0, 5)\<close>, and the pattern has two matches before the pass (\<open>_\<close> and \<open>123,5%\<close>) and
  two after it (\<open>E 123\<close> and \<open>5%\<close>): the count of matches does not decrease.
\<close>

theorem match_count_counterexample:
  "re_search (BLACKLIST_RE ascii_rt) (u ''E_123,5%'') = Some (1, 2) \<and>
   mask_span (u ''E_123,5%'') 1 2 = u ''E 123,5%'' \<and>
   re_search (BLACKLIST_RE ascii_rt) (u ''E 123,5%'') = Some (0, 5) \<and>
   length (finditer (BLACKLIST_RE ascii_rt) (u ''E_123,5%'')) = 2 \<and>
   length (finditer (BLACKLIST_RE ascii_rt) (u ''E 123,5%'')) = 2"
  using search_before mask_before search_after finditer_before finditer_after by simp

text \<open>
  C9, amended. For every input string the masking loop of \<open>normalize_ingredients\<close>
  terminates: every match is a non-empty span that holds a character other than a
  space, each pass replaces the span with spaces, and a run of spaces holds no match, so
  the number of characters that are not spaces strictly decreases at each pass. The
  loop breaks within \<open>1 +\<close> that number of passes, on a string in which no match
  remains.
\<close>

theorem normalize_terminates:
  "(re_search (BLACKLIST_RE R) s = Some (a, b) \<longrightarrow>
      a < b \<and> b \<le> length s \<and> nonspace (mask_span s a b) < nonspace s) \<and>
   re_search (BLACKLIST_RE R) (replicate n 32) = None \<and>
   normalize_bounded (Suc (nonspace t)) R t = Some (normalize_ingredients R t) \<and>
   re_search (BLACKLIST_RE R) (normalize_ingredients R t) = None"
proof -
  have "a < b \<and> b \<le> length s \<and> nonspace (mask_span s a b) < nonspace s"
    if h: "re_search (BLACKLIST_RE R) s = Some (a, b)"
  proof -
    from re_search_blacklist[OF h] obtain c where
      "a \<le> b" "b \<le> length s" "c \<in> set (take (b - a) (drop a s))" by blast
    then have "a < b" "b \<le> length s" by (cases "b - a", auto)
    with re_search_mask_nonspace[OF h] show ?thesis by simp
  qed
  moreover have "normalize_bounded (Suc (nonspace t)) R t = Some (normalize_ingredients R t)"
    by (rule normalize_bounded_enough) simp
  ultimately show ?thesis
    using spaces_no_match[of R n] normalize_no_match[of R t] by blast
qed

theorem normalize_terminates_witness:
  "re_search (BLACKLIST_RE ascii_rt) (u ''E_123,5%'') = Some (1, 2) \<and>
   (1::nat) < 2 \<and> 2 \<le> length (u ''E_123,5%'') \<and>
   nonspace (mask_span (u ''E_123,5%'') 1 2) < nonspace (u ''E_123,5%'') \<and>
   normalize_bounded (Suc (nonspace (u ''E_123,5%''))) ascii_rt (u ''E_123,5%'') =
     Some (normalize_ingredients ascii_rt (u ''E_123,5%''))"
  using search_before normalize_terminates[of ascii_rt "u ''E_123,5%''" 1 2 0 "u ''E_123,5%''"]
  by blast

section \<open>Properties of the Segmenter\<close>

text \<open>
  \<open>chain lo offsets hi\<close>: the slots lie from \<open>lo\<close> on, each has \<open>start \<le> end\<close>, the
  next one starts after the end of the one before, and \<open>hi\<close> is beyond the last end.
\<close>

fun chain :: "int \<Rightarrow> (int \<times> int) list \<Rightarrow> int \<Rightarrow> bool" where
  "chain lo [] hi = (lo \<le> hi)"
| "chain lo ((s, e) # r) hi = (lo \<le> s \<and> s \<le> e \<and> chain (e + 1) r hi)"

lemma chain_append:
  "chain lo offs hi \<Longrightarrow> hi \<le> s \<Longrightarrow> s \<le> e \<Longrightarrow> e + 1 \<le> hi' \<Longrightarrow> chain lo (offs @ [(s, e)]) hi'"
  by (induction offs arbitrary: lo) auto

lemma chain_mono: "chain lo offs hi \<Longrightarrow> hi \<le> hi' \<Longrightarrow> chain lo offs hi'"
  by (induction offs arbitrary: lo) auto

lemma chain_le: "chain lo offs hi \<Longrightarrow> lo \<le> hi"
  by (induction offs arbitrary: lo) fastforce+

lemma chain_nth:
  "chain lo offs hi \<Longrightarrow> i < length offs \<Longrightarrow>
     lo \<le> fst (offs ! i) \<and> fst (offs ! i) \<le> snd (offs ! i) \<and> snd (offs ! i) < hi"
proof (induction offs arbitrary: lo i)
  case Nil
  then show ?case by simp
next
  case (Cons p r)
  obtain s e where p: "p = (s, e)" by (cases p)
  from Cons.prems(1) p have c: "lo \<le> s" "s \<le> e" "chain (e + 1) r hi" by simp_all
  show ?case
  proof (cases i)
    case 0
    with c p chain_le[OF c(3)] show ?thesis by simp
  next
    case (Suc j)
    with Cons.prems(2) have "j < length r" by simp
    from Cons.IH[OF c(3) this] Suc c show ?thesis by simp
  qed
qed

lemma chain_consecutive:
  "chain lo offs hi \<Longrightarrow> Suc i < length offs \<Longrightarrow> snd (offs ! i) < fst (offs ! Suc i)"
proof (induction offs arbitrary: lo i)
  case Nil
  then show ?case by simp
next
  case (Cons p r)
  obtain s e where p: "p = (s, e)" by (cases p)
  from Cons.prems(1) p have c: "chain (e + 1) r hi" by simp
  show ?case
  proof (cases i)
    case 0
    with Cons.prems(2) have "0 < length r" by simp
    from chain_nth[OF c this] 0 p show ?thesis by simp
  next
    case (Suc j)
    with Cons.prems(2) have "Suc j < length r" by simp
    from Cons.IH[OF c this] Suc show ?thesis by simp
  qed
qed

lemma segment_loop_chain:
  "segment_loop s idx (offsets, chars, start_idx) = (offsets', chars', start_idx') \<Longrightarrow>
     chain 0 offsets start_idx \<Longrightarrow> start_idx \<le> idx \<Longrightarrow>
     chain 0 offsets' start_idx' \<and> start_idx' \<le> idx + int (length s)"
proof (induction s arbitrary: idx offsets chars start_idx)
  case Nil
  then show ?case by simp
next
  case (Cons char rest)
  show ?case
  proof (cases "char \<in> SPLITTER_CHAR")
    case True
    with Cons.prems(1) have loop:
      "segment_loop rest (idx + 1) (offsets @ [(start_idx, idx)], chars @ [32], idx + 1) =
         (offsets', chars', start_idx')" by simp
    have "chain 0 (offsets @ [(start_idx, idx)]) (idx + 1)"
      using Cons.prems(3) by (intro chain_append[OF Cons.prems(2)]) simp_all
    from Cons.IH[OF loop this] show ?thesis by simp
  next
    case False
    with Cons.prems(1) have loop:
      "segment_loop rest (idx + 1) (offsets, chars @ [char], start_idx) =
         (offsets', chars', start_idx')" by simp
    from Cons.IH[OF loop Cons.prems(2)] Cons.prems(3) show ?thesis by simp
  qed
qed

lemma process_ingredients_chain:
  "chain 0 (i_offsets (process_ingredients R t)) (int (length t) + 1)"
proof -
  let ?n = "int (length (normalize_ingredients R t))"
  obtain offsets chars start_idx where
    loop: "segment_loop (normalize_ingredients R t) 0 ([], [], 0) = (offsets, chars, start_idx)"
    by (cases "segment_loop (normalize_ingredients R t) 0 ([], [], 0)")
  from segment_loop_chain[OF loop] have inv: "chain 0 offsets start_idx" "start_idx \<le> ?n"
    by simp_all
  have offs: "i_offsets (process_ingredients R t) =
      (if start_idx \<noteq> ?n then offsets @ [(start_idx, ?n)] else offsets)"
    by (simp add: process_ingredients_def Let_def loop)
  have "chain 0 (if start_idx \<noteq> ?n then offsets @ [(start_idx, ?n)] else offsets) (?n + 1)"
  proof (cases "start_idx \<noteq> ?n")
    case True
    have "chain 0 (offsets @ [(start_idx, ?n)]) (?n + 1)"
      using inv(2) by (intro chain_append[OF inv(1)]) simp_all
    with True show ?thesis by simp
  next
    case False
    with chain_mono[OF inv(1), of "?n + 1"] show ?thesis by simp
  qed
  with offs show ?thesis by (simp add: normalize_length)
qed

lemma offsets_example:
  "i_offsets (process_ingredients ascii_rt (u ''sel (5%), eau'')) = [(0, 4), (5, 7), (8, 8), (9, 13)]"
  by code_simp

text \<open>
  C4, as stated, fails: a separator that follows another one, or that opens the text,
  closes an empty slot. In \<open>sel (5%), eau\<close> the comma at 8 follows the parenthesis
  at 7, and the third slot is \<open>(8, 8)\<close>, for which \<open>start < end\<close> is false.
\<close>

theorem empty_slot_counterexample:
  "i_offsets (process_ingredients ascii_rt (u ''sel (5%), eau'')) ! 2 = (8, 8)"
  by (simp add: offsets_example)

text \<open>
  C4, amended. For every input string, every slot \<open>(start, end)\<close> of
  \<open>process_ingredients\<close> satisfies \<open>0 \<le> start \<le> end \<le> len(text)\<close> (a slot may be
  empty), and the slots are strictly increasing and do not overlap: the end of a slot
  is below the start of the next one.
\<close>

theorem slots_valid:
  "(\<forall>i < length (i_offsets (process_ingredients R t)).
      0 \<le> fst (i_offsets (process_ingredients R t) ! i) \<and>
      fst (i_offsets (process_ingredients R t) ! i) \<le> snd (i_offsets (process_ingredients R t) ! i) \<and>
      snd (i_offsets (process_ingredients R t) ! i) \<le> int (length t)) \<and>
   (\<forall>i. Suc i < length (i_offsets (process_ingredients R t)) \<longrightarrow>
      snd (i_offsets (process_ingredients R t) ! i) < fst (i_offsets (process_ingredients R t) ! Suc i))"
  using chain_nth[OF process_ingredients_chain[of R t]]
        chain_consecutive[OF process_ingredients_chain[of R t]]
  by fastforce

theorem slots_valid_witness:
  "(2::nat) < length (i_offsets (process_ingredients ascii_rt (u ''sel (5%), eau''))) \<and>
   i_offsets (process_ingredients ascii_rt (u ''sel (5%), eau'')) ! 2 = (8, 8) \<and>
   snd (i_offsets (process_ingredients ascii_rt (u ''sel (5%), eau'')) ! 2) \<le> int (length (u ''sel (5%), eau'')) \<and>
   snd (i_offsets (process_ingredients ascii_rt (u ''sel (5%), eau'')) ! 2)
     < fst (i_offsets (process_ingredients ascii_rt (u ''sel (5%), eau'')) ! Suc 2)"
proof -
  have len: "(2::nat) < length (i_offsets (process_ingredients ascii_rt (u ''sel (5%), eau'')))"
    "Suc 2 < length (i_offsets (process_ingredients ascii_rt (u ''sel (5%), eau'')))"
    by (simp_all add: offsets_example)
  from slots_valid[of ascii_rt "u ''sel (5%), eau''"] len
  have "snd (i_offsets (process_ingredients ascii_rt (u ''sel (5%), eau'')) ! 2) \<le> int (length (u ''sel (5%), eau''))"
    "snd (i_offsets (process_ingredients ascii_rt (u ''sel (5%), eau'')) ! 2)
       < fst (i_offsets (process_ingredients ascii_rt (u ''sel (5%), eau'')) ! Suc 2)"
    by blast+
  with len show ?thesis by (simp add: offsets_example)
qed

section \<open>Properties of the Text Rebuilder\<close>

lemma py_slice_prefix:
  "0 \<le> i \<Longrightarrow> i \<le> int (length s) \<Longrightarrow> py_slice s None (Some i) = take (nat i) s"
  by (simp add: py_slice_def slice_bound_def)

lemma py_slice_suffix:
  "0 \<le> i \<Longrightarrow> i \<le> int (length s) \<Longrightarrow> py_slice s (Some i) None = drop (nat i) s"
  by (simp add: py_slice_def slice_bound_def)

text \<open>
  C1. The claim is that \<open>generate_corrected_text([], t) == t\<close>. The source appends the
  text after the last correction only when there is a last correction, and appends
  nothing else when the list is empty: the result is the empty string.
\<close>

theorem no_corrections_gives_empty_text:
  "generate_corrected_text [] (u ''sel'') = [] \<and> u ''sel'' = [115, 101, 108]"
  by (simp add: generate_corrected_text_def u_def)

text \<open>
  C8. For a single correction \<open>c\<close> with \<open>0 \<le> s \<le> e \<le> len(t)\<close>,
  \<open>generate_corrected_text([c], t) == t[:s] + c.correction + t[e:]\<close>.
\<close>

theorem single_correction:
  assumes "0 \<le> start_offset c" "start_offset c \<le> end_offset c" "end_offset c \<le> int (length t)"
  shows "generate_corrected_text [c] t =
           take (nat (start_offset c)) t @ correction c @ drop (nat (end_offset c)) t"
proof -
  have "py_slice t None (Some (start_offset c)) = take (nat (start_offset c)) t"
    using assms by (intro py_slice_prefix) simp_all
  moreover have "py_slice t (Some (end_offset c)) None = drop (nat (end_offset c)) t"
    using assms by (intro py_slice_suffix) simp_all
  ultimately show ?thesis
    by (simp add: generate_corrected_text_def)
qed

theorem single_correction_witness:
  "generate_corrected_text
     [\<lparr>original = u ''sel'', correction = u ''sucre'', start_offset = 1, end_offset = 4\<rparr>]
     (u '' sel, eau'') = u '' sucre, eau''"
proof -
  have "(0::int) \<le> 1" "(1::int) \<le> 4" "(4::int) \<le> int (length (u '' sel, eau''))"
    by (simp_all add: u_def)
  then show ?thesis
    using single_correction[of "\<lparr>original = u ''sel'', correction = u ''sucre'', start_offset = 1, end_offset = 4\<rparr>"
        "u '' sel, eau''"]
    by (simp add: u_def)
qed

section \<open>Properties of the Reconciler\<close>

lemma format_loop_filter:
  "format_loop R ps offset acc =
     acc @ map (\<lambda>(ot, st).
                 \<lparr>original = token ot,
                  correction =
                    (if str_isupper R (token ot) then str_upper R (token st)
                     else if str_istitle R (token ot) then str_capitalize R (token st)
                     else token st),
                  start_offset = offset + token_start_offset ot,
                  end_offset = offset + token_end_offset ot\<rparr>)
              (filter (\<lambda>(ot, st). str_lower R (token ot) \<noteq> token st) ps)"
  by (induction ps arbitrary: acc) (auto simp: Let_def)

lemma zip_by_index:
  "length xs = length ys \<Longrightarrow> zip xs ys = map (\<lambda>i. (xs ! i, ys ! i)) [0..<length xs]"
  by (rule nth_equalityI) simp_all

lemma format_corrections_eq:
  assumes "length original_tokens = length suggestion_tokens"
  shows "format_corrections R original_tokens suggestion_tokens offset =
     Inr (map (\<lambda>i.
                \<lparr>original = token (original_tokens ! i),
                 correction =
                   (if str_isupper R (token (original_tokens ! i))
                    then str_upper R (token (suggestion_tokens ! i))
                    else if str_istitle R (token (original_tokens ! i))
                    then str_capitalize R (token (suggestion_tokens ! i))
                    else token (suggestion_tokens ! i)),
                 start_offset = offset + token_start_offset (original_tokens ! i),
                 end_offset = offset + token_end_offset (original_tokens ! i)\<rparr>)
             (filter (\<lambda>i. str_lower R (token (original_tokens ! i)) \<noteq> token (suggestion_tokens ! i))
                [0..<length original_tokens]))"
  using assms
  by (simp add: format_corrections_def format_loop_filter zip_by_index filter_map o_def)

text \<open>Tokens for the concrete runs.\<close>

definition tok :: "string \<Rightarrow> int \<Rightarrow> int \<Rightarrow> es_token" where
  "tok s a b = \<lparr>token = u s, token_start_offset = a, token_end_offset = b\<rparr>"

definition term_correction :: "string \<Rightarrow> string \<Rightarrow> int \<Rightarrow> int \<Rightarrow> TermCorrection" where
  "term_correction s c a b = \<lparr>original = u s, correction = u c, start_offset = a, end_offset = b\<rparr>"

text \<open>
  C6. For token lists of equal length and every base offset, \<open>format_corrections\<close>
  emits a \<open>TermCorrection\<close> exactly at the indices \<open>i\<close>, in increasing order, where the
  lowercased original token differs from the suggestion token. Its replacement is the
  suggestion token uppercased when the original \<open>isupper\<close>, capitalized when the
  original \<open>istitle\<close>, and verbatim otherwise; its offsets are the base offset plus the
  offsets of the original token.
\<close>

theorem format_corrections_by_index:
  assumes "length original_tokens = length suggestion_tokens"
  shows "format_corrections R original_tokens suggestion_tokens offset =
     Inr (map (\<lambda>i.
                \<lparr>original = token (original_tokens ! i),
                 correction =
                   (if str_isupper R (token (original_tokens ! i))
                    then str_upper R (token (suggestion_tokens ! i))
                    else if str_istitle R (token (original_tokens ! i))
                    then str_capitalize R (token (suggestion_tokens ! i))
                    else token (suggestion_tokens ! i)),
                 start_offset = offset + token_start_offset (original_tokens ! i),
                 end_offset = offset + token_end_offset (original_tokens ! i)\<rparr>)
             (filter (\<lambda>i. str_lower R (token (original_tokens ! i)) \<noteq> token (suggestion_tokens ! i))
                [0..<length original_tokens]))"
  using assms by (rule format_corrections_eq)

text \<open>
  The casing examples of the specification: \<open>SEL\<close> against \<open>sel\<close> gives no correction,
  \<open>Sucre\<close> against \<open>sucrre\<close> gives \<open>Sucrre\<close>, \<open>FARINE\<close> against \<open>farinne\<close> gives
  \<open>FARINNE\<close>, and the lower-case \<open>ble\<close> takes \<open>bles\<close> as it is.
\<close>

theorem format_corrections_by_index_witness:
  "format_corrections ascii_rt
     [tok ''SEL'' 0 3, tok ''Sucre'' 4 9, tok ''FARINE'' 10 16, tok ''ble'' 17 20]
     [tok ''sel'' 0 3, tok ''sucrre'' 4 10, tok ''farinne'' 11 18, tok ''bles'' 19 23] 100 =
   Inr [term_correction ''Sucre'' ''Sucrre'' 104 109,
        term_correction ''FARINE'' ''FARINNE'' 110 116,
        term_correction ''ble'' ''bles'' 117 120]"
proof -
  let ?ots = "[tok ''SEL'' 0 3, tok ''Sucre'' 4 9, tok ''FARINE'' 10 16, tok ''ble'' 17 20]"
  let ?sts = "[tok ''sel'' 0 3, tok ''sucrre'' 4 10, tok ''farinne'' 11 18, tok ''bles'' 19 23]"
  have len: "length ?ots = length ?sts" by simp
  have idx: "[0..<length ?ots] = [0, 1, 2, 3]" by code_simp
  show ?thesis
    unfolding format_corrections_by_index[OF len, of ascii_rt 100] idx
    by (simp add: tok_def term_correction_def u_def ascii_rt_def ascii_lower_def ascii_upper_def
        ascii_capitalize_def ascii_isupper_def)
qed

section \<open>Clients for the concrete runs\<close>

text \<open>A successful item of the batch whose only option is \<open>t\<close>, with score 1.\<close>

definition answer :: "ustr \<Rightarrow> msearch_item" where
  "answer t = \<lparr>status = 200, suggest = Some [\<lparr>options = [\<lparr>option_text = t, option_score = 1\<rparr>]\<rparr>]\<rparr>"

text \<open>An analyzer that makes one token of the whole text.\<close>

definition keyword_tokens :: "ustr \<Rightarrow> es_token list" where
  "keyword_tokens t = [\<lparr>token = t, token_start_offset = 0, token_end_offset = int (length t)\<rparr>]"


text \<open>The backend suggests \<open>sel marin\<close>, which the analyzer cuts into two tokens.\<close>

definition mismatch_client :: es_client where
  "mismatch_client =
     \<lparr>msearch = (\<lambda>texts. \<lparr>responses = map (\<lambda>t. answer (u ''sel marin'')) texts,
                             error_root_cause = None\<rparr>),
      indices_analyze =
        (\<lambda>t. if t = u ''sel marin'' then [tok ''sel'' 0 3, tok ''marin'' 4 9]
              else keyword_tokens t)\<rparr>"

text \<open>
  The third item of the batch fails with status 500; every other slot text \<open>t\<close> gets the
  suggestion \<open>t\<close> followed by \<open>x\<close>. \<open>rc\<close> is \<open>response['error']['root_cause']\<close>, \<open>None\<close>
  when the answer has no key \<open>error\<close> at its top level.
\<close>

definition failing_client :: "root_cause list option \<Rightarrow> es_client" where
  "failing_client rc =
     \<lparr>msearch = (\<lambda>texts.
        \<lparr>responses = map (\<lambda>(i, t). if i = 2 then \<lparr>status = 500, suggest = None\<rparr>
                                     else answer (t @ [120])) (enumerate 0 texts),
         error_root_cause = rc\<rparr>),
      indices_analyze = keyword_tokens\<rparr>"


definition option_of :: "string \<Rightarrow> suggestion" where
  "option_of s = \<lparr>options = [\<lparr>option_text = u s, option_score = 1\<rparr>]\<rparr>"

text \<open>The value of \<open>process_ingredients\<close> on \<open>sel\<close>: one slot, the whole text.\<close>

definition sel_ingredients :: Ingredients where
  "sel_ingredients = \<lparr>i_text = u ''sel'', i_normalized = u ''sel'', i_offsets = [(0, 3)]\<rparr>"

section \<open>Properties of the orchestration\<close>

text \<open>
  What one pass of the loop of \<open>generate_corrections\<close> adds, stated slot by slot. The
  tokens of slot \<open>idx\<close> are those of its normalized text.
\<close>

definition slot_tokens :: "es_client \<Rightarrow> Ingredients \<Rightarrow> nat \<Rightarrow> es_token list" where
  "slot_tokens client ing idx =
     analyze client
       (py_slice (i_normalized ing) (Some (fst (i_offsets ing ! idx))) (Some (snd (i_offsets ing ! idx))))"

text \<open>
  The elements that the slot \<open>idx\<close> with the answer \<open>sg\<close> contributes to the returned
  list: none when the answer has no option or when the token counts differ, else one
  \<open>Correction\<close> that holds a \<open>TermCorrection\<close> for each divergent token, and none when no
  token diverges.
\<close>

definition slot_contribution :: "pyrt \<Rightarrow> es_client \<Rightarrow> Ingredients \<Rightarrow> nat \<times> suggestion \<Rightarrow> Correction list" where
  "slot_contribution R client ing p =
     (case options (snd p) of
        [] \<Rightarrow> []
      | opt # _ \<Rightarrow>
          (let ots = slot_tokens client ing (fst p);
               sts = analyze client (option_text opt)
           in if length ots \<noteq> length sts then []
              else [\<lparr>term_corrections =
                       map (\<lambda>i.
                             \<lparr>original = token (ots ! i),
                              correction =
                                (if str_isupper R (token (ots ! i)) then str_upper R (token (sts ! i))
                                 else if str_istitle R (token (ots ! i)) then str_capitalize R (token (sts ! i))
                                 else token (sts ! i)),
                              start_offset = fst (i_offsets ing ! fst p) + token_start_offset (ots ! i),
                              end_offset = fst (i_offsets ing ! fst p) + token_end_offset (ots ! i)\<rparr>)
                           (filter (\<lambda>i. str_lower R (token (ots ! i)) \<noteq> token (sts ! i)) [0..<length ots]),
                     score = option_score opt\<rparr>]))"

text \<open>The warnings that the slot logs: one when the token counts differ.\<close>

definition slot_warning :: "es_client \<Rightarrow> Ingredients \<Rightarrow> nat \<times> suggestion \<Rightarrow> log_entry list" where
  "slot_warning client ing p =
     (case options (snd p) of
        [] \<Rightarrow> []
      | opt # _ \<Rightarrow>
          (let ots = slot_tokens client ing (fst p);
               sts = analyze client (option_text opt)
           in if length ots \<noteq> length sts then [Warning ots sts] else []))"

lemma suggest_batch_loop_error:
  "suggest_batch_loop response rs st = Inl e \<Longrightarrow> e = KeyError \<or> e = IndexError"
proof (induction rs arbitrary: st)
  case Nil
  then show ?case by simp
next
  case (Cons r rest)
  obtain suggestions printed where st: "st = (suggestions, printed)" by (cases st)
  from Cons.prems show ?case
    unfolding st
    by (auto split: if_splits option.splits list.splits dest: Cons.IH)
qed

lemma format_corrections_error:
  "format_corrections R ots sts offset = Inl e \<Longrightarrow> e = TokenLengthMismatchException"
  by (simp add: format_corrections_def split: if_splits)

lemma correct_slot_error:
  "correct_slot R client ing p st = Inl e \<Longrightarrow> e = IndexError"
  by (cases p; cases st)
     (auto simp: correct_slot_def get_normalized_ingredient_def py_getitem_def Let_def
           split: sum.splits list.splits if_splits prod.splits
           dest: format_corrections_error)

lemma corrections_loop_error:
  "corrections_loop R client ing ps st = Inl e \<Longrightarrow> e = IndexError"
proof (induction ps arbitrary: st)
  case Nil
  then show ?case by simp
next
  case (Cons p rest)
  then show ?case
    by (auto split: sum.splits dest: correct_slot_error)
qed

lemma generate_corrections_error:
  "generate_corrections R client text = Inl e \<Longrightarrow> e = KeyError \<or> e = IndexError"
  by (auto simp: generate_corrections_def suggest_batch_def Let_def
           split: sum.splits prod.splits
           dest: suggest_batch_loop_error corrections_loop_error)

lemma correct_slot_eq:
  assumes "idx < length (i_offsets ing)"
  shows "correct_slot R client ing (idx, sg) (cs, lg) =
           Inr (cs @ slot_contribution R client ing (idx, sg), lg @ slot_warning client ing (idx, sg))"
proof -
  obtain s e where off: "i_offsets ing ! idx = (s, e)" by (cases "i_offsets ing ! idx")
  have item: "py_getitem (i_offsets ing) idx = Inr (s, e)"
    using assms off by (simp add: py_getitem_def)
  have norm: "get_normalized_ingredient ing idx = Inr (py_slice (i_normalized ing) (Some s) (Some e))"
    by (simp add: get_normalized_ingredient_def item)
  have toks: "slot_tokens client ing idx = analyze client (py_slice (i_normalized ing) (Some s) (Some e))"
    by (simp add: slot_tokens_def off)
  show ?thesis
  proof (cases "options sg")
    case Nil
    then show ?thesis
      by (simp add: correct_slot_def item norm slot_contribution_def slot_warning_def)
  next
    case (Cons opt opts)
    show ?thesis
    proof (cases "length (slot_tokens client ing idx) = length (analyze client (option_text opt))")
      case True
      from format_corrections_eq[OF True, of R s] True Cons show ?thesis
        by (simp add: correct_slot_def item norm slot_contribution_def slot_warning_def
            Let_def toks off)
    next
      case False
      then have "format_corrections R (slot_tokens client ing idx) (analyze client (option_text opt)) s =
                   Inl TokenLengthMismatchException"
        by (simp add: format_corrections_def)
      with False Cons show ?thesis
        by (simp add: correct_slot_def item norm slot_contribution_def slot_warning_def
            Let_def toks)
    qed
  qed
qed

lemma corrections_loop_eq:
  "n + length sgs \<le> length (i_offsets ing) \<Longrightarrow>
     corrections_loop R client ing (enumerate n sgs) (cs, lg) =
       Inr (cs @ concat (map (slot_contribution R client ing) (enumerate n sgs)),
            lg @ concat (map (slot_warning client ing) (enumerate n sgs)))"
proof (induction sgs arbitrary: n cs lg)
  case Nil
  then show ?case by simp
next
  case (Cons sg rest)
  from Cons.prems have n: "n < length (i_offsets ing)" and
    rest: "Suc n + length rest \<le> length (i_offsets ing)" by simp_all
  show ?case
    by (simp add: correct_slot_eq[OF n] Cons.IH[OF rest])
qed

lemma generate_corrections_eq:
  assumes "suggest_batch client (iter_normalized_ingredients (process_ingredients R t)) =
             Inr (suggestions, printed)"
    and "length suggestions \<le> length (i_offsets (process_ingredients R t))"
  shows "generate_corrections R client t =
           Inr (concat (map (slot_contribution R client (process_ingredients R t)) (enumerate 0 suggestions)),
                printed @ concat (map (slot_warning client (process_ingredients R t)) (enumerate 0 suggestions)))"
  using assms
  by (simp add: generate_corrections_def Let_def corrections_loop_eq)

lemma correct_slot_overflow:
  "\<not> idx < length (i_offsets ing) \<Longrightarrow> correct_slot R client ing (idx, sg) st = Inl IndexError"
  by (cases st) (simp add: correct_slot_def py_getitem_def)

lemma corrections_loop_overflow:
  "n \<le> length (i_offsets ing) \<Longrightarrow> length (i_offsets ing) < n + length sgs \<Longrightarrow>
     corrections_loop R client ing (enumerate n sgs) st = Inl IndexError"
proof (induction sgs arbitrary: n st)
  case Nil
  then show ?case by simp
next
  case (Cons sg rest)
  obtain cs lg where st: "st = (cs, lg)" by (cases st)
  show ?case
  proof (cases "n < length (i_offsets ing)")
    case True
    then have "Suc n \<le> length (i_offsets ing)" by simp
    moreover from Cons.prems have "length (i_offsets ing) < Suc n + length rest" by simp
    ultimately show ?thesis
      by (simp add: st correct_slot_eq[OF True] Cons.IH)
  next
    case False
    then show ?thesis by (simp add: correct_slot_overflow)
  qed
qed

lemma generate_corrections_Inr:
  assumes "generate_corrections R client t = Inr (cs, lg)"
  shows "\<exists>suggestions printed.
           suggest_batch client (iter_normalized_ingredients (process_ingredients R t)) =
             Inr (suggestions, printed) \<and>
           length suggestions \<le> length (i_offsets (process_ingredients R t)) \<and>
           cs = concat (map (slot_contribution R client (process_ingredients R t)) (enumerate 0 suggestions)) \<and>
           lg = printed @ concat (map (slot_warning client (process_ingredients R t)) (enumerate 0 suggestions))"
proof (cases "suggest_batch client (iter_normalized_ingredients (process_ingredients R t))")
  case (Inl e)
  with assms show ?thesis by (simp add: generate_corrections_def Let_def)
next
  case (Inr r)
  obtain suggestions printed where r: "r = (suggestions, printed)" by (cases r)
  show ?thesis
  proof (cases "length suggestions \<le> length (i_offsets (process_ingredients R t))")
    case True
    from generate_corrections_eq[OF Inr[unfolded r] True] assms Inr r True show ?thesis by simp
  next
    case False
    then have "corrections_loop R client (process_ingredients R t) (enumerate 0 suggestions) ([], printed) =
                 Inl IndexError"
      by (intro corrections_loop_overflow) simp_all
    with assms Inr r show ?thesis by (simp add: generate_corrections_def Let_def)
  qed
qed




lemma slot_warning_mismatch:
  assumes "options sg = opt # opts"
    and "length (slot_tokens client ing idx) \<noteq> length (analyze client (option_text opt))"
  shows "slot_contribution R client ing (idx, sg) = [] \<and>
         slot_warning client ing (idx, sg) =
           [Warning (slot_tokens client ing idx) (analyze client (option_text opt))]"
  using assms by (simp add: slot_contribution_def slot_warning_def Let_def)

lemma slot_warning_none:
  assumes "options sg = [] \<or>
           (options sg = opt # opts \<and>
            length (slot_tokens client ing idx) = length (analyze client (option_text opt)))"
  shows "slot_warning client ing (idx, sg) = []"
  using assms by (auto simp: slot_warning_def Let_def)

lemma process_sel: "process_ingredients ascii_rt (u ''sel'') = sel_ingredients"
  by code_simp

lemma mismatch_batch:
  "suggest_batch mismatch_client (iter_normalized_ingredients (process_ingredients ascii_rt (u ''sel''))) =
   Inr ([option_of ''sel marin''], [])"
  by code_simp

lemma mismatch_slot_tokens:
  "slot_tokens mismatch_client (process_ingredients ascii_rt (u ''sel'')) 0 = [tok ''sel'' 0 3]"
  by code_simp

lemma mismatch_option_tokens:
  "analyze mismatch_client (u ''sel marin'') = [tok ''sel'' 0 3, tok ''marin'' 4 9]"
  by code_simp

text \<open>
  C7. \<open>format_corrections\<close> raises \<open>TokenLengthMismatchException\<close> if and only if the
  two token lists differ in length. \<open>generate_corrections\<close> recovers from it and never
  ends with that exception: whenever it returns, its list of corrections is the
  concatenation of what each slot contributes and its log the lines printed by the
  batch followed by what each slot logs; a slot whose token counts differ contributes
  no correction and logs one warning that holds the two token lists, and no other slot
  logs a warning.
\<close>

theorem token_count_mismatch:
  "(format_corrections R ots sts offset = Inl TokenLengthMismatchException
      \<longleftrightarrow> length ots \<noteq> length sts) \<and>
   generate_corrections R client t \<noteq> Inl TokenLengthMismatchException \<and>
   (generate_corrections R client t = Inr (cs, lg) \<longrightarrow>
      (\<exists>suggestions printed.
         suggest_batch client (iter_normalized_ingredients (process_ingredients R t)) =
           Inr (suggestions, printed) \<and>
         cs = concat (map (slot_contribution R client (process_ingredients R t))
                        (enumerate 0 suggestions)) \<and>
         lg = printed @ concat (map (slot_warning client (process_ingredients R t))
                                  (enumerate 0 suggestions)))) \<and>
   (suggest_batch client (iter_normalized_ingredients (process_ingredients R t)) =
      Inr (suggestions, printed) \<and>
    length suggestions \<le> length (i_offsets (process_ingredients R t)) \<longrightarrow>
      generate_corrections R client t =
        Inr (concat (map (slot_contribution R client (process_ingredients R t)) (enumerate 0 suggestions)),
             printed @ concat (map (slot_warning client (process_ingredients R t)) (enumerate 0 suggestions)))) \<and>
   (options sg = opt # opts \<and>
    length (slot_tokens client ing idx) \<noteq> length (analyze client (option_text opt)) \<longrightarrow>
      slot_contribution R client ing (idx, sg) = [] \<and>
      slot_warning client ing (idx, sg) =
        [Warning (slot_tokens client ing idx) (analyze client (option_text opt))]) \<and>
   (options sg = [] \<or>
    (options sg = opt # opts \<and>
     length (slot_tokens client ing idx) = length (analyze client (option_text opt))) \<longrightarrow>
      slot_warning client ing (idx, sg) = [])"
proof (intro conjI impI)
  show "format_corrections R ots sts offset = Inl TokenLengthMismatchException
          \<longleftrightarrow> length ots \<noteq> length sts"
    by (simp add: format_corrections_def)
next
  show "generate_corrections R client t \<noteq> Inl TokenLengthMismatchException"
    using generate_corrections_error[of R client t TokenLengthMismatchException] by auto
next
  assume "generate_corrections R client t = Inr (cs, lg)"
  from generate_corrections_Inr[OF this]
  show "\<exists>suggestions printed.
         suggest_batch client (iter_normalized_ingredients (process_ingredients R t)) =
           Inr (suggestions, printed) \<and>
         cs = concat (map (slot_contribution R client (process_ingredients R t))
                        (enumerate 0 suggestions)) \<and>
         lg = printed @ concat (map (slot_warning client (process_ingredients R t))
                                  (enumerate 0 suggestions))"
    by blast
next
  assume "suggest_batch client (iter_normalized_ingredients (process_ingredients R t)) =
      Inr (suggestions, printed) \<and>
    length suggestions \<le> length (i_offsets (process_ingredients R t))"
  then show "generate_corrections R client t =
        Inr (concat (map (slot_contribution R client (process_ingredients R t)) (enumerate 0 suggestions)),
             printed @ concat (map (slot_warning client (process_ingredients R t)) (enumerate 0 suggestions)))"
    by (intro generate_corrections_eq) simp_all
next
  assume h: "options sg = opt # opts \<and>
    length (slot_tokens client ing idx) \<noteq> length (analyze client (option_text opt))"
  from h show "slot_contribution R client ing (idx, sg) = []"
    using slot_warning_mismatch[of sg opt opts client ing idx R] by blast
  from h show "slot_warning client ing (idx, sg) =
        [Warning (slot_tokens client ing idx) (analyze client (option_text opt))]"
    using slot_warning_mismatch[of sg opt opts client ing idx R] by blast
next
  assume "options sg = [] \<or>
    (options sg = opt # opts \<and>
     length (slot_tokens client ing idx) = length (analyze client (option_text opt)))"
  then show "slot_warning client ing (idx, sg) = []"
    by (rule slot_warning_none)
qed

theorem token_count_mismatch_witness:
  "format_corrections ascii_rt [tok ''sel'' 0 3] [tok ''sel'' 0 3, tok ''marin'' 4 9] 0 =
     Inl TokenLengthMismatchException \<and>
   generate_corrections ascii_rt mismatch_client (u ''sel'') =
     Inr ([], [Warning [tok ''sel'' 0 3] [tok ''sel'' 0 3, tok ''marin'' 4 9]])"
proof -
  let ?ing = "process_ingredients ascii_rt (u ''sel'')"
  let ?opt = "\<lparr>option_text = u ''sel marin'', option_score = 1\<rparr>"
  note inst = token_count_mismatch[where R = ascii_rt and client = mismatch_client and t = "u ''sel''"
      and suggestions = "[option_of ''sel marin'']" and printed = "[]"
      and ots = "[tok ''sel'' 0 3]" and sts = "[tok ''sel'' 0 3, tok ''marin'' 4 9]" and offset = 0
      and sg = "option_of ''sel marin''" and opt = "?opt" and opts = "[]" and ing = "?ing" and idx = 0]
  have len: "length [option_of ''sel marin''] \<le> length (i_offsets ?ing)"
    by (simp add: process_sel sel_ingredients_def)
  have opts: "options (option_of ''sel marin'') = ?opt # []"
    by (simp add: option_of_def)
  have ne: "length (slot_tokens mismatch_client ?ing 0) \<noteq> length (analyze mismatch_client (option_text ?opt))"
    by (simp add: mismatch_slot_tokens mismatch_option_tokens)
  from inst have "format_corrections ascii_rt [tok ''sel'' 0 3] [tok ''sel'' 0 3, tok ''marin'' 4 9] 0 =
      Inl TokenLengthMismatchException"
    by simp
  moreover from inst mismatch_batch len
  have "generate_corrections ascii_rt mismatch_client (u ''sel'') =
      Inr (concat (map (slot_contribution ascii_rt mismatch_client ?ing) (enumerate 0 [option_of ''sel marin''])),
           [] @ concat (map (slot_warning mismatch_client ?ing) (enumerate 0 [option_of ''sel marin''])))"
    by blast
  moreover from inst opts ne
  have "slot_contribution ascii_rt mismatch_client ?ing (0, option_of ''sel marin'') = [] \<and>
        slot_warning mismatch_client ?ing (0, option_of ''sel marin'') =
          [Warning (slot_tokens mismatch_client ?ing 0) (analyze mismatch_client (option_text ?opt))]"
    by blast
  ultimately show ?thesis
    by (simp add: mismatch_slot_tokens mismatch_option_tokens)
qed








text \<open>
  C2. A batch of five slots, \<open>aa,bb,cc,dd,ee\<close>, whose third item fails. When the
  answer has no key \<open>error\<close> at its top level, as an answer with a failed item has,
  \<open>_suggest_batch\<close> raises \<open>KeyError\<close> and the batch is aborted. When it has one, the
  failure is printed but no entry is kept for the failed item, so the four answers
  left are paired with the first four slots: the slot \<open>cc\<close> at \<open>[6, 8)\<close> receives the
  suggestion made for \<open>dd\<close>, the slot \<open>dd\<close> the one made for \<open>ee\<close>, and \<open>ee\<close> none.
\<close>

theorem partial_failure_run:
  "generate_corrections ascii_rt (failing_client None) (u ''aa,bb,cc,dd,ee'') = Inl KeyError \<and>
   generate_corrections ascii_rt
       (failing_client (Some [\<lparr>cause_type = u ''exception'', cause_reason = u ''failed''\<rparr>]))
       (u ''aa,bb,cc,dd,ee'') =
     Inr ([\<lparr>term_corrections = [term_correction ''aa'' ''aax'' 0 2], score = 1\<rparr>,
           \<lparr>term_corrections = [term_correction ''bb'' ''bbx'' 3 5], score = 1\<rparr>,
           \<lparr>term_corrections = [term_correction ''cc'' ''ddx'' 6 8], score = 1\<rparr>,
           \<lparr>term_corrections = [term_correction ''dd'' ''eex'' 9 11], score = 1\<rparr>],
          [Printed (u ''failed'') (u ''exception'')])"
proof -
  have "generate_corrections ascii_rt (failing_client None) (u ''aa,bb,cc,dd,ee'') = Inl KeyError"
    by code_simp
  moreover have "generate_corrections ascii_rt
       (failing_client (Some [\<lparr>cause_type = u ''exception'', cause_reason = u ''failed''\<rparr>]))
       (u ''aa,bb,cc,dd,ee'') =
     Inr ([\<lparr>term_corrections = [term_correction ''aa'' ''aax'' 0 2], score = 1\<rparr>,
           \<lparr>term_corrections = [term_correction ''bb'' ''bbx'' 3 5], score = 1\<rparr>,
           \<lparr>term_corrections = [term_correction ''cc'' ''ddx'' 6 8], score = 1\<rparr>,
           \<lparr>term_corrections = [term_correction ''dd'' ''eex'' 9 11], score = 1\<rparr>],
          [Printed (u ''failed'') (u ''exception'')])"
    by code_simp
  ultimately show ?thesis by (rule conjI)
qed

end
